theory Spec2Isabelle
  imports Main "HOL-Library.Word"
begin

section \<open>Rasters\<close>

text \<open>
  The script \<^verbatim>\<open>scripts/replace_app_icon.py\<close> works on Pillow images. An image is
  its size and its flattened pixel sequence (what \<^verbatim>\<open>getdata\<close> returns: row after
  row, from the upper left corner). The sizes are Python integers; a channel is one
  byte. After \<^verbatim>\<open>convert("RGB")\<close> a pixel is a triple, after
  \<^verbatim>\<open>convert("RGBA")\<close> a quadruple.

  An image without an alpha channel can carry a colour key in
  \<^verbatim>\<open>info["transparency"]\<close> (the tRNS chunk of a PNG file): three Python integers.
  \<^verbatim>\<open>convert("RGB")\<close> on a three-channel image, \<^verbatim>\<open>crop\<close>, \<^verbatim>\<open>putdata\<close> and
  \<^verbatim>\<open>resize\<close> keep the \<^verbatim>\<open>info\<close> of the image, and so the key.
\<close>

type_synonym channel = "8 word"
type_synonym rgb = "channel \<times> channel \<times> channel"
type_synonym rgba = "channel \<times> channel \<times> channel \<times> channel"

record 'p image =
  width :: int
  height :: int
  data :: "'p list"
  transparency :: "(int \<times> int \<times> int) option"

text \<open>
  \<^verbatim>\<open>im.getpixel((x, y))\<close>: the pixel of column \<open>x\<close> in row \<open>y\<close> of the flattened
  sequence.
\<close>

definition getpixel :: "'p image \<Rightarrow> int \<times> int \<Rightarrow> 'p" where
  "getpixel im xy = (case xy of (x, y) \<Rightarrow> data im ! nat (y * width im + x))"

text \<open>
  \<^verbatim>\<open>im.crop((left, upper, right, lower))\<close>: a new image of size
  \<open>(right - left, lower - upper)\<close> whose rows are the rows \<open>upper .. lower - 1\<close> of
  the source, each restricted to the columns \<open>left .. right - 1\<close>. The script only
  passes a box that lies inside the image (\<open>crop_box_inside\<close> below).
\<close>

definition crop :: "'p image \<Rightarrow> int \<times> int \<times> int \<times> int \<Rightarrow> 'p image" where
  "crop im box = (case box of (left, upper, right, lower) \<Rightarrow>
     \<lparr>width = right - left, height = lower - upper,
      data = concat (map (\<lambda>y. map (\<lambda>x. getpixel im (x, y)) [left..right - 1])
                         [upper..lower - 1]),
      transparency = transparency im\<rparr>)"

text \<open>
  Whether a pixel is of the keyed colour. Pillow compares each channel with the low
  byte of the integer of the key (\<^verbatim>\<open>r & 0xff\<close> in \<^verbatim>\<open>rgbT2rgba\<close>).
\<close>

definition keyed :: "(int \<times> int \<times> int) option \<Rightarrow> rgb \<Rightarrow> bool" where
  "keyed key pixel = (case key of
     None \<Rightarrow> False
   | Some (kr, kg, kb) \<Rightarrow>
       (case pixel of (r, g, b) \<Rightarrow>
          uint r = kr mod 256 \<and> uint g = kg mod 256 \<and> uint b = kb mod 256))"

text \<open>
  \<^verbatim>\<open>img.convert("RGBA")\<close> on a three-channel image: a pixel of the keyed colour
  gets alpha 0, every other pixel a fully opaque alpha channel; the colour channels stay,
  and the result has no key (\<^verbatim>\<open>del new_im.info["transparency"]\<close>).
\<close>

definition convert_RGBA :: "rgb image \<Rightarrow> rgba image" where
  "convert_RGBA img =
     \<lparr>width = width img, height = height img,
      data = map (\<lambda>(r, g, b). (r, g, b, if keyed (transparency img) (r, g, b) then 0 else 255))
               (data img),
      transparency = None\<rparr>"

text \<open>
  \<^verbatim>\<open>img.putdata(new_data)\<close>: the pixel sequence of the image is replaced; the
  size stays. The script passes one item per pixel of the image
  (\<open>length_transparent_data\<close> below).
\<close>

definition putdata :: "'p image \<Rightarrow> 'p list \<Rightarrow> 'p image" where
  "putdata img new_data = img\<lparr>data := new_data\<rparr>"

section \<open>The transparency pass\<close>

text \<open>
  The body of the loop of \<^verbatim>\<open>make_background_transparent\<close>:
  \<^verbatim>\<open>
    r, g, b, a = item
    if r >= threshold and g >= threshold and b >= threshold:
        new_data.append((r, g, b, 0))
    else:
        new_data.append(item)
  \<close>
  The threshold is a Python integer, compared with the value of each byte.
\<close>

definition transparent_item :: "int \<Rightarrow> rgba \<Rightarrow> rgba" where
  "transparent_item threshold item = (case item of (r, g, b, a) \<Rightarrow>
     if uint r \<ge> threshold \<and> uint g \<ge> threshold \<and> uint b \<ge> threshold
     then (r, g, b, 0)
     else item)"

text \<open>The loop: \<^verbatim>\<open>new_data\<close> is an accumulator, extended at its end.\<close>

fun transparent_data :: "int \<Rightarrow> rgba list \<Rightarrow> rgba list \<Rightarrow> rgba list" where
  "transparent_data threshold [] new_data = new_data"
| "transparent_data threshold (item # items) new_data =
     transparent_data threshold items (new_data @ [transparent_item threshold item])"

definition make_background_transparent :: "rgb image \<Rightarrow> int \<Rightarrow> rgba image" where
  "make_background_transparent img threshold =
     (let img = convert_RGBA img;
          data = data img;
          new_data = transparent_data threshold data []
      in putdata img new_data)"

text \<open>The default value of the parameter \<^verbatim>\<open>threshold\<close>.\<close>

definition default_threshold :: int where
  "default_threshold = 235"

section \<open>The square crop\<close>

text \<open>
  The box that \<^verbatim>\<open>main\<close> passes to \<^verbatim>\<open>crop\<close> for an image of size \<open>(w, h)\<close>:
  \<^verbatim>\<open>
    s = min(w, h)
    left = (w - s) // 2
    top = (h - s) // 2
    im = im.crop((left, top, left + s, top + s))
  \<close>
  Python's \<^verbatim>\<open>//\<close> is floor division, as \<open>div\<close> on \<open>int\<close> is.
\<close>

definition crop_box :: "int \<Rightarrow> int \<Rightarrow> int \<times> int \<times> int \<times> int" where
  "crop_box w h =
     (let s = min w h;
          left = (w - s) div 2;
          top = (h - s) div 2
      in (left, top, left + s, top + s))"

definition square_crop :: "'p image \<Rightarrow> 'p image" where
  "square_crop im =
     (let w = width im; h = height im
      in if w \<noteq> h then crop im (crop_box w h) else im)"

section \<open>Files, directories and the image library\<close>

text \<open>
  A path is the list of its components below the root; \<^verbatim>\<open>out_dir / name\<close> appends
  one component. The content of a file is a sequence of bytes.
\<close>

type_synonym path = "string list"
type_synonym bytes = "8 word list"

text \<open>
  What a run can observe and change: the regular files with their contents, the
  directories, and the lines printed on standard output. \<open>resize_calls\<close> records,
  in order, the pixel size of every call of \<^verbatim>\<open>im.resize\<close>; nothing reads it.
\<close>

record world =
  files :: "path \<rightharpoonup> bytes"
  dirs :: "path set"
  stdout :: "path list"
  resize_calls :: "int list"

text \<open>The exceptions that the modelled calls raise.\<close>

datatype error =
    FileNotFoundError
  | FileExistsError
  | NotADirectoryError
  | IsADirectoryError
  | UnidentifiedImageError
  | KeyError

text \<open>
  Three functions of Pillow are parameters of the model: decoding the bytes of a file
  into a three-channel raster (\<^verbatim>\<open>Image.open(...).convert("RGB")\<close>, \<open>None\<close> when the
  bytes are not a decodable image; the raster carries the colour key that Pillow keeps
  for the file, if any), the pixel sequence that Lanczos resampling computes
  for a target size, and the PNG encoding of a four-channel raster.
\<close>

record pil =
  decode_rgb :: "bytes \<Rightarrow> rgb image option"
  lanczos :: "rgba image \<Rightarrow> int \<times> int \<Rightarrow> rgba list"
  png :: "rgba image \<Rightarrow> bytes"

text \<open>The root always is a directory.\<close>

definition is_dir :: "world \<Rightarrow> path \<Rightarrow> bool" where
  "is_dir \<sigma> p \<longleftrightarrow> p = [] \<or> p \<in> dirs \<sigma>"

text \<open>The path itself and the directories above it, the root left out, outermost first.\<close>

primrec ancestors :: "path \<Rightarrow> path list" where
  "ancestors [] = []"
| "ancestors (c # cs) = [c] # map ((#) c) (ancestors cs)"

text \<open>
  \<^verbatim>\<open>out_dir.mkdir(parents=True, exist_ok=True)\<close>: every directory on the way to the
  path that is missing is created, the path itself last; a directory that exists is
  left as it is; a regular file in the way is an error.
\<close>

fun mkdir_each :: "path list \<Rightarrow> world \<Rightarrow> (error + unit) \<times> world" where
  "mkdir_each [] \<sigma> = (Inr (), \<sigma>)"
| "mkdir_each (q # qs) \<sigma> =
     (if q \<in> dirs \<sigma> then mkdir_each qs \<sigma>
      else if q \<in> dom (files \<sigma>)
        then (Inl (if qs = [] then FileExistsError else NotADirectoryError), \<sigma>)
      else mkdir_each qs (\<sigma>\<lparr>dirs := insert q (dirs \<sigma>)\<rparr>))"

definition mkdir :: "path \<Rightarrow> world \<Rightarrow> (error + unit) \<times> world" where
  "mkdir p \<sigma> = mkdir_each (ancestors p) \<sigma>"

text \<open>\<^verbatim>\<open>Image.open(SRC).convert("RGB")\<close>.\<close>

definition Image_open_RGB :: "pil \<Rightarrow> path \<Rightarrow> world \<Rightarrow> error + rgb image" where
  "Image_open_RGB lib p \<sigma> =
     (if is_dir \<sigma> p then Inl IsADirectoryError
      else case files \<sigma> p of
             None \<Rightarrow> Inl FileNotFoundError
           | Some content \<Rightarrow>
               (case decode_rgb lib content of
                  None \<Rightarrow> Inl UnidentifiedImageError
                | Some im \<Rightarrow> Inr im))"

text \<open>
  \<^verbatim>\<open>im.resize((w, h), Image.Resampling.LANCZOS)\<close>: a new image of the requested
  size.
\<close>

definition resize :: "pil \<Rightarrow> rgba image \<Rightarrow> int \<times> int \<Rightarrow> rgba image" where
  "resize lib im sz = (case sz of (w, h) \<Rightarrow>
     \<lparr>width = w, height = h, data = lanczos lib im (w, h),
      transparency = transparency im\<rparr>)"

text \<open>
  \<^verbatim>\<open>img.save(out_path, "PNG")\<close>: the file is created or overwritten with the
  encoding of the image. It fails on a directory and below a missing directory.
\<close>

definition save :: "pil \<Rightarrow> rgba image \<Rightarrow> path \<Rightarrow> world \<Rightarrow> (error + unit) \<times> world" where
  "save lib img p \<sigma> =
     (if is_dir \<sigma> p then (Inl IsADirectoryError, \<sigma>)
      else if is_dir \<sigma> (butlast p)
        then (Inr (), \<sigma>\<lparr>files := (files \<sigma>)(p \<mapsto> png lib img)\<rparr>)
      else if butlast p \<in> dom (files \<sigma>) then (Inl NotADirectoryError, \<sigma>)
      else (Inl FileNotFoundError, \<sigma>))"

definition print :: "path \<Rightarrow> world \<Rightarrow> world" where
  "print p \<sigma> = \<sigma>\<lparr>stdout := stdout \<sigma> @ [p]\<rparr>"

section \<open>The script\<close>

definition SRC :: path where
  "SRC = [''Users'', ''jcalles'', ''.cursor'', ''projects'',
          ''Users-jcalles-github-PortfolioMultiplatform'', ''assets'',
          ''image-0df30865-3908-4db0-b81c-4bba4cb06804.png'']"

definition SIZES :: "(int \<times> string list) list" where
  "SIZES = [
    (20, [''icon-20.png'']),
    (40, [''icon-20@2x.png'', ''icon-20@2x-ipad.png'']),
    (60, [''icon-20@3x.png'']),
    (29, [''icon-29.png'']),
    (58, [''icon-29@2x.png'', ''icon-29@2x-ipad.png'']),
    (87, [''icon-29@3x.png'']),
    (40, [''icon-40.png'']),
    (80, [''icon-40@2x.png'', ''icon-40@2x-ipad.png'']),
    (120, [''icon-40@3x.png'']),
    (120, [''icon-60@2x.png'']),
    (180, [''icon-60@3x.png'']),
    (76, [''icon-76.png'']),
    (152, [''icon-76@2x.png'']),
    (167, [''icon-83.5@2x.png'']),
    (1024, [''icon-1024.png'']),
    (16, [''icon-mac-16.png'']),
    (32, [''icon-mac-16@2x.png'', ''icon-mac-32.png'']),
    (64, [''icon-mac-32@2x.png'']),
    (128, [''icon-mac-128.png'']),
    (256, [''icon-mac-128@2x.png'', ''icon-mac-256.png'']),
    (512, [''icon-mac-256@2x.png'', ''icon-mac-512.png'']),
    (1024, [''icon-mac-512@2x.png''])
  ]"

text \<open>
  The inner loop of \<^verbatim>\<open>main\<close>:
  \<^verbatim>\<open>
    for name in filenames:
        out_path = out_dir / name
        seen_size[size].save(out_path, "PNG")
        print(out_path)
  \<close>
  A run stops at the first exception, with the world as it is then.
\<close>

fun write_filenames ::
  "pil \<Rightarrow> path \<Rightarrow> (int \<rightharpoonup> rgba image) \<Rightarrow> int \<Rightarrow> string list \<Rightarrow> world \<Rightarrow> (error + unit) \<times> world"
where
  "write_filenames lib out_dir seen_size pixel_size [] \<sigma> = (Inr (), \<sigma>)"
| "write_filenames lib out_dir seen_size pixel_size (name # names) \<sigma> =
     (let out_path = out_dir @ [name]
      in case seen_size pixel_size of
           None \<Rightarrow> (Inl KeyError, \<sigma>)
         | Some img \<Rightarrow>
             (case save lib img out_path \<sigma> of
                (Inl e, \<sigma>') \<Rightarrow> (Inl e, \<sigma>')
              | (Inr _, \<sigma>') \<Rightarrow>
                  write_filenames lib out_dir seen_size pixel_size names (print out_path \<sigma>')))"

text \<open>
  The outer loop:
  \<^verbatim>\<open>
    for size, filenames in SIZES:
        if size not in seen_size:
            resized = im.resize((size, size), Image.Resampling.LANCZOS)
            seen_size[size] = resized
        for name in filenames: ...
  \<close>
\<close>

fun write_sizes ::
  "pil \<Rightarrow> path \<Rightarrow> rgba image \<Rightarrow> (int \<times> string list) list \<Rightarrow> (int \<rightharpoonup> rgba image) \<Rightarrow> world
     \<Rightarrow> (error + unit) \<times> (int \<rightharpoonup> rgba image) \<times> world"
where
  "write_sizes lib out_dir im [] seen_size \<sigma> = (Inr (), seen_size, \<sigma>)"
| "write_sizes lib out_dir im ((pixel_size, filenames) # rest) seen_size \<sigma> =
     (let (seen_size, \<sigma>) =
            (if seen_size pixel_size = None
             then (let resized = resize lib im (pixel_size, pixel_size)
                   in (seen_size(pixel_size \<mapsto> resized),
                       \<sigma>\<lparr>resize_calls := resize_calls \<sigma> @ [pixel_size]\<rparr>))
             else (seen_size, \<sigma>))
      in case write_filenames lib out_dir seen_size pixel_size filenames \<sigma> of
           (Inl e, \<sigma>') \<Rightarrow> (Inl e, seen_size, \<sigma>')
         | (Inr _, \<sigma>') \<Rightarrow> write_sizes lib out_dir im rest seen_size \<sigma>')"

text \<open>
  \<^verbatim>\<open>main\<close>. The output directory \<^verbatim>\<open>OUT_DIR\<close> is resolved from the location of
  the script and is a parameter here. The result is the exception that ended the run,
  if any, and the world that the run leaves.
\<close>

definition main :: "pil \<Rightarrow> path \<Rightarrow> world \<Rightarrow> (error + unit) \<times> world" where
  "main lib OUT_DIR \<sigma> =
     (let out_dir = OUT_DIR
      in case mkdir out_dir \<sigma> of
           (Inl e, \<sigma>) \<Rightarrow> (Inl e, \<sigma>)
         | (Inr _, \<sigma>) \<Rightarrow>
             (case Image_open_RGB lib SRC \<sigma> of
                Inl e \<Rightarrow> (Inl e, \<sigma>)
              | Inr im \<Rightarrow>
                  (let im = square_crop im;
                       im = make_background_transparent im default_threshold;
                       seen_size = Map.empty
                   in case write_sizes lib out_dir im SIZES seen_size \<sigma> of
                        (result, seen_size, \<sigma>) \<Rightarrow> (result, \<sigma>))))"

text \<open>The filenames of a size specification, in the order of their writes.\<close>

definition filenames_of :: "(int \<times> string list) list \<Rightarrow> string list" where
  "filenames_of entries = concat (map snd entries)"

text \<open>The sizes that miss the cache when the entries are processed in order.\<close>

fun cache_misses :: "int set \<Rightarrow> int list \<Rightarrow> int list" where
  "cache_misses seen [] = []"
| "cache_misses seen (pixel_size # sizes) =
     (if pixel_size \<in> seen then cache_misses seen sizes
      else pixel_size # cache_misses (insert pixel_size seen) sizes)"

text \<open>The size of the last entry that lists a filename.\<close>

fun last_size :: "(int \<times> string list) list \<Rightarrow> string \<Rightarrow> int option" where
  "last_size [] name = None"
| "last_size ((pixel_size, filenames) # rest) name =
     (case last_size rest name of
        Some s \<Rightarrow> Some s
      | None \<Rightarrow> if name \<in> set filenames then Some pixel_size else None)"

text \<open>When \<^verbatim>\<open>save\<close> succeeds: the path is no directory and lies in a directory.\<close>

definition can_write :: "world \<Rightarrow> path \<Rightarrow> bool" where
  "can_write \<sigma> p \<longleftrightarrow> \<not> is_dir \<sigma> p \<and> is_dir \<sigma> (butlast p)"

text \<open>The invariant of the cache: the raster stored for a size is the source resized to it.\<close>

definition cache_ok :: "pil \<Rightarrow> rgba image \<Rightarrow> (int \<rightharpoonup> rgba image) \<Rightarrow> bool" where
  "cache_ok lib im seen_size \<longleftrightarrow>
     (\<forall>k img. seen_size k = Some img \<longrightarrow> img = resize lib im (k, k))"

text \<open>The cache after the test \<^verbatim>\<open>if size not in seen_size\<close> of one iteration.\<close>

definition seen_next :: "pil \<Rightarrow> rgba image \<Rightarrow> int \<Rightarrow> (int \<rightharpoonup> rgba image) \<Rightarrow> (int \<rightharpoonup> rgba image)" where
  "seen_next lib im ps seen =
     (if seen ps = None then seen(ps \<mapsto> resize lib im (ps, ps)) else seen)"

text \<open>The world after that test: a miss calls \<^verbatim>\<open>im.resize\<close>.\<close>

definition world_next :: "int \<Rightarrow> (int \<rightharpoonup> rgba image) \<Rightarrow> world \<Rightarrow> world" where
  "world_next ps seen \<sigma> =
     (if seen ps = None then \<sigma>\<lparr>resize_calls := resize_calls \<sigma> @ [ps]\<rparr> else \<sigma>)"

text \<open>The raster that \<^verbatim>\<open>main\<close> resizes, from the loaded one: cropped, then made transparent.\<close>

definition prepare :: "rgb image \<Rightarrow> rgba image" where
  "prepare im = make_background_transparent (square_crop im) default_threshold"

text \<open>The source is missing, or its bytes are not a decodable image.\<close>

definition source_unreadable :: "pil \<Rightarrow> world \<Rightarrow> bool" where
  "source_unreadable lib \<sigma> \<longleftrightarrow>
     (case files \<sigma> SRC of None \<Rightarrow> True | Some content \<Rightarrow> decode_rgb lib content = None)"

text \<open>The lines that a run from \<open>\<sigma>\<close> to \<open>\<sigma>'\<close> printed: one path after each \<^verbatim>\<open>save\<close>.\<close>

definition printed :: "world \<Rightarrow> world \<Rightarrow> path list" where
  "printed \<sigma> \<sigma>' = drop (length (stdout \<sigma>)) (stdout \<sigma>')"

text \<open>The sizes of the calls of \<^verbatim>\<open>im.resize\<close> during a run from \<open>\<sigma>\<close> to \<open>\<sigma>'\<close>.\<close>

definition resized :: "world \<Rightarrow> world \<Rightarrow> int list" where
  "resized \<sigma> \<sigma>' = drop (length (resize_calls \<sigma>)) (resize_calls \<sigma>')"

text \<open>
  Sample rasters without a colour key: a 4 by 2 image of numbered pixels, and two light
  pixels.
\<close>

definition wide_image :: "nat image" where
  "wide_image =
     \<lparr>width = 4, height = 2, data = [0, 1, 2, 3, 4, 5, 6, 7], transparency = None\<rparr>"

definition two_pixels :: "rgb image" where
  "two_pixels =
     \<lparr>width = 2, height = 1, data = [(255, 240, 235), (255, 234, 255)],
      transparency = None\<rparr>"

text \<open>A raster with a colour key, as a PNG file with a tRNS chunk decodes to.\<close>

definition keyed_pixels :: "rgb image" where
  "keyed_pixels =
     \<lparr>width = 2, height = 1, data = [(10, 20, 30), (200, 100, 50)],
      transparency = Some (10, 20, 30)\<rparr>"

text \<open>
  A sample run: an output directory, stand-ins for the three functions of Pillow, and
  worlds where the source is a decodable file, an undecodable file, and missing.
\<close>

definition sample_out_dir :: path where
  "sample_out_dir = [''repo'', ''Shared'', ''Assets.xcassets'', ''AppIcon.appiconset'']"

definition sample_decode :: "bytes \<Rightarrow> rgb image option" where
  "sample_decode content =
     (if content = [] then None
      else Some \<lparr>width = 2, height = 1,
                 data = [(hd content, hd content, hd content), (0, 0, 0)],
                 transparency = None\<rparr>)"

definition sample_resample :: "rgba image \<Rightarrow> int \<times> int \<Rightarrow> rgba list" where
  "sample_resample im sz = (case sz of (w, h) \<Rightarrow> replicate (nat (w * h)) (hd (data im)))"

definition sample_png :: "rgba image \<Rightarrow> bytes" where
  "sample_png im =
     [word_of_int (width im), word_of_int (height im)]
       @ concat (map (\<lambda>(r, g, b, a). [r, g, b, a]) (data im))"

definition sample_pil :: pil where
  "sample_pil = \<lparr>decode_rgb = sample_decode, lanczos = sample_resample, png = sample_png\<rparr>"

definition sample_world :: world where
  "sample_world = \<lparr>files = [SRC \<mapsto> [255]], dirs = {}, stdout = [], resize_calls = []\<rparr>"

definition garbage_world :: world where
  "garbage_world = \<lparr>files = [SRC \<mapsto> []], dirs = {}, stdout = [], resize_calls = []\<rparr>"

definition empty_world :: world where
  "empty_world = \<lparr>files = Map.empty, dirs = {}, stdout = [], resize_calls = []\<rparr>"

definition sample_result :: world where
  "sample_result = snd (main sample_pil sample_out_dir sample_world)"

section \<open>Properties of the raster operations\<close>

lemma transparent_data_map:
  "transparent_data threshold items new_data = new_data @ map (transparent_item threshold) items"
  by (induction items arbitrary: new_data) simp_all

lemma length_transparent_data:
  "length (transparent_data threshold items []) = length items"
  by (simp add: transparent_data_map)

lemma data_make_background_transparent:
  "data (make_background_transparent img threshold) =
     map (\<lambda>(r, g, b). transparent_item threshold
            (r, g, b, if keyed (transparency img) (r, g, b) then 0 else 255))
         (data img)"
  by (simp add: make_background_transparent_def putdata_def convert_RGBA_def
      transparent_data_map comp_def case_prod_unfold)

lemma width_make_background_transparent:
  "width (make_background_transparent img threshold) = width img"
  by (simp add: make_background_transparent_def putdata_def convert_RGBA_def)

lemma height_make_background_transparent:
  "height (make_background_transparent img threshold) = height img"
  by (simp add: make_background_transparent_def putdata_def convert_RGBA_def)

lemma crop_box_inside:
  assumes "0 \<le> w" "0 \<le> h" "crop_box w h = (left, upper, right, lower)"
  shows "0 \<le> left \<and> left \<le> right \<and> right \<le> w \<and> 0 \<le> upper \<and> upper \<le> lower \<and> lower \<le> h"
  using assms by (auto simp: crop_box_def Let_def min_def split: if_splits)

lemma nth_concat_rows:
  "\<forall>row \<in> set rows. length row = n \<Longrightarrow> i < n \<Longrightarrow> j < length rows \<Longrightarrow>
   concat rows ! (j * n + i) = rows ! j ! i"
proof (induction rows arbitrary: j)
  case Nil
  then show ?case by simp
next
  case (Cons row rows)
  show ?case
  proof (cases j)
    case 0
    with Cons.prems show ?thesis by (simp add: nth_append)
  next
    case (Suc k)
    with Cons.prems have "concat rows ! (k * n + i) = rows ! k ! i"
      by (intro Cons.IH) simp_all
    with Suc Cons.prems show ?thesis by (simp add: nth_append)
  qed
qed

lemma getpixel_fields:
  "getpixel \<lparr>width = w, height = h, data = d, transparency = k\<rparr> (x, y) =
     d ! nat (y * w + x)"
  by (simp add: getpixel_def)

lemma getpixel_crop:
  assumes "0 \<le> x" "x < right - left" "0 \<le> y" "y < lower - upper"
  shows "getpixel (crop im (left, upper, right, lower)) (x, y) = getpixel im (left + x, upper + y)"
proof -
  let ?n = "nat (right - left)"
  let ?rows = "map (\<lambda>y. map (\<lambda>x. getpixel im (x, y)) [left..right - 1]) [upper..lower - 1]"
  have rows: "\<forall>row \<in> set ?rows. length row = ?n"
    by auto
  have i: "nat x < ?n" and j: "nat y < length ?rows"
    using assms by simp_all
  have idx: "nat (y * (right - left) + x) = nat y * ?n + nat x"
    using assms by (simp add: nat_add_distrib nat_mult_distrib)
  have "concat ?rows ! (nat y * ?n + nat x) = ?rows ! nat y ! nat x"
    by (rule nth_concat_rows [OF rows i j])
  also have "\<dots> = getpixel im (left + x, upper + y)"
    using assms by simp
  finally show ?thesis
    by (simp add: crop_def getpixel_fields idx)
qed

section \<open>Properties of the file system calls and of the loops\<close>

lemma ancestors_mem:
  "q \<in> set (ancestors p) \<Longrightarrow> q \<noteq> [] \<and> length q \<le> length p"
  by (induction p arbitrary: q) auto

lemma self_in_ancestors: "p \<noteq> [] \<Longrightarrow> p \<in> set (ancestors p)"
  by (induction p) auto

lemma child_not_ancestor: "p @ [c] \<notin> set (ancestors p)"
  using ancestors_mem [of "p @ [c]" p] by auto

lemma mkdir_each_fields:
  "mkdir_each qs \<sigma> = (r, \<sigma>') \<Longrightarrow>
   files \<sigma>' = files \<sigma> \<and> stdout \<sigma>' = stdout \<sigma> \<and> resize_calls \<sigma>' = resize_calls \<sigma> \<and>
   dirs \<sigma> \<subseteq> dirs \<sigma>' \<and> dirs \<sigma>' \<subseteq> dirs \<sigma> \<union> set qs"
proof (induction qs arbitrary: \<sigma>)
  case Nil
  then show ?case by simp
next
  case (Cons q qs)
  show ?case
  proof (cases "q \<in> dirs \<sigma>")
    case True
    with Cons.prems have "mkdir_each qs \<sigma> = (r, \<sigma>')" by simp
    from Cons.IH [OF this] show ?thesis by auto
  next
    case False
    show ?thesis
    proof (cases "q \<in> dom (files \<sigma>)")
      case True
      with False Cons.prems show ?thesis by auto
    next
      case notfile: False
      with False Cons.prems
      have "mkdir_each qs (\<sigma>\<lparr>dirs := insert q (dirs \<sigma>)\<rparr>) = (r, \<sigma>')" by simp
      from Cons.IH [OF this] show ?thesis by auto
    qed
  qed
qed

lemma mkdir_each_Inr:
  "mkdir_each qs \<sigma> = (Inr u, \<sigma>') \<Longrightarrow> dirs \<sigma>' = dirs \<sigma> \<union> set qs"
  by (induction qs arbitrary: \<sigma>) (auto split: if_splits)

lemma mkdir_each_existing:
  "set qs \<subseteq> dirs \<sigma> \<Longrightarrow> mkdir_each qs \<sigma> = (Inr (), \<sigma>)"
  by (induction qs) auto

lemma mkdir_each_succeeds:
  "set qs \<inter> dom (files \<sigma>) = {} \<Longrightarrow> fst (mkdir_each qs \<sigma>) = Inr ()"
  by (induction qs arbitrary: \<sigma>) auto

lemma save_Inr_iff: "fst (save lib img p \<sigma>) = Inr () \<longleftrightarrow> can_write \<sigma> p"
  by (simp add: save_def can_write_def)

lemma save_Inr:
  "can_write \<sigma> p \<Longrightarrow> save lib img p \<sigma> = (Inr (), \<sigma>\<lparr>files := (files \<sigma>)(p \<mapsto> png lib img)\<rparr>)"
  by (simp add: save_def can_write_def)

lemma save_Inl:
  "\<not> can_write \<sigma> p \<Longrightarrow> \<exists>e. save lib img p \<sigma> = (Inl e, \<sigma>)"
  by (auto simp: save_def can_write_def)

lemma can_write_cong: "dirs \<sigma>' = dirs \<sigma> \<Longrightarrow> can_write \<sigma>' p = can_write \<sigma> p"
  by (simp add: can_write_def is_dir_def)

lemma write_filenames_fields:
  "write_filenames lib out seen ps names \<sigma> = (r, \<sigma>') \<Longrightarrow>
   dirs \<sigma>' = dirs \<sigma> \<and> resize_calls \<sigma>' = resize_calls \<sigma>"
proof (induction names arbitrary: \<sigma>)
  case Nil
  then show ?case by simp
next
  case (Cons name names)
  show ?case
  proof (cases "seen ps")
    case None
    with Cons.prems show ?thesis by simp
  next
    case (Some img)
    show ?thesis
    proof (cases "can_write \<sigma> (out @ [name])")
      case True
      let ?\<sigma>1 = "print (out @ [name]) (\<sigma>\<lparr>files := (files \<sigma>)(out @ [name] \<mapsto> png lib img)\<rparr>)"
      from True Some Cons.prems
      have "write_filenames lib out seen ps names ?\<sigma>1 = (r, \<sigma>')"
        by (simp add: save_Inr Let_def)
      from Cons.IH [OF this] show ?thesis by (simp add: print_def)
    next
      case False
      from save_Inl [OF False, of lib img] Some Cons.prems show ?thesis
        by (auto simp: Let_def)
    qed
  qed
qed

lemma write_filenames_Inr:
  assumes "seen ps = Some img"
    and "write_filenames lib out seen ps names \<sigma> = (Inr u, \<sigma>')"
  shows "(\<forall>n \<in> set names. can_write \<sigma> (out @ [n])) \<and>
         stdout \<sigma>' = stdout \<sigma> @ map (\<lambda>n. out @ [n]) names \<and>
         (\<forall>p. files \<sigma>' p =
            (if p \<in> (\<lambda>n. out @ [n]) ` set names then Some (png lib img) else files \<sigma> p))"
  using assms(2)
proof (induction names arbitrary: \<sigma>)
  case Nil
  then show ?case by simp
next
  case (Cons name names)
  let ?p = "out @ [name]"
  let ?\<sigma>1 = "print ?p (\<sigma>\<lparr>files := (files \<sigma>)(?p \<mapsto> png lib img)\<rparr>)"
  have can: "can_write \<sigma> ?p"
  proof (rule ccontr)
    assume "\<not> can_write \<sigma> ?p"
    from save_Inl [OF this, of lib img] assms(1) Cons.prems show False
      by (auto simp: Let_def)
  qed
  with assms(1) Cons.prems
  have rest: "write_filenames lib out seen ps names ?\<sigma>1 = (Inr u, \<sigma>')"
    by (simp add: save_Inr Let_def)
  have same: "can_write ?\<sigma>1 q = can_write \<sigma> q" for q
    by (rule can_write_cong) (simp add: print_def)
  have files1: "files ?\<sigma>1 = (files \<sigma>)(?p \<mapsto> png lib img)"
    and stdout1: "stdout ?\<sigma>1 = stdout \<sigma> @ [?p]"
    by (simp_all add: print_def)
  from Cons.IH [OF rest] can show ?case
    unfolding same files1 stdout1 by auto
qed

lemma write_filenames_succeeds:
  assumes "seen ps = Some img"
  shows "\<forall>n \<in> set names. can_write \<sigma> (out @ [n]) \<Longrightarrow>
         fst (write_filenames lib out seen ps names \<sigma>) = Inr ()"
proof (induction names arbitrary: \<sigma>)
  case Nil
  then show ?case by simp
next
  case (Cons name names)
  let ?p = "out @ [name]"
  let ?\<sigma>1 = "print ?p (\<sigma>\<lparr>files := (files \<sigma>)(?p \<mapsto> png lib img)\<rparr>)"
  have same: "can_write ?\<sigma>1 q = can_write \<sigma> q" for q
    by (rule can_write_cong) (simp add: print_def)
  from Cons.prems have "fst (write_filenames lib out seen ps names ?\<sigma>1) = Inr ()"
    by (intro Cons.IH) (simp add: same)
  with Cons.prems assms show ?case
    by (simp add: save_Inr Let_def)
qed

lemma write_sizes_Cons:
  "write_sizes lib out im ((ps, names) # rest) seen \<sigma> =
     (case write_filenames lib out (seen_next lib im ps seen) ps names (world_next ps seen \<sigma>) of
        (Inl e, \<sigma>') \<Rightarrow> (Inl e, seen_next lib im ps seen, \<sigma>')
      | (Inr _, \<sigma>') \<Rightarrow> write_sizes lib out im rest (seen_next lib im ps seen) \<sigma>')"
proof (cases "seen ps")
  case None
  then have "seen_next lib im ps seen = seen(ps \<mapsto> resize lib im (ps, ps))"
    and "world_next ps seen \<sigma> = \<sigma>\<lparr>resize_calls := resize_calls \<sigma> @ [ps]\<rparr>"
    by (simp_all add: seen_next_def world_next_def)
  with None show ?thesis by (simp split: prod.splits sum.splits)
next
  case (Some img)
  then have "seen_next lib im ps seen = seen" and "world_next ps seen \<sigma> = \<sigma>"
    by (simp_all add: seen_next_def world_next_def)
  with Some show ?thesis by (simp split: prod.splits sum.splits)
qed

declare write_sizes.simps(2) [simp del]

lemma seen_next_ps:
  "cache_ok lib im seen \<Longrightarrow> seen_next lib im ps seen ps = Some (resize lib im (ps, ps))"
  by (auto simp: seen_next_def cache_ok_def)

lemma seen_next_Some: "\<exists>img. seen_next lib im ps seen ps = Some img"
  by (auto simp: seen_next_def)

lemma cache_ok_seen_next: "cache_ok lib im seen \<Longrightarrow> cache_ok lib im (seen_next lib im ps seen)"
  by (auto simp: seen_next_def cache_ok_def)

lemma dom_seen_next: "dom (seen_next lib im ps seen) = insert ps (dom seen)"
  by (auto simp: seen_next_def)

lemma world_next_fields:
  "files (world_next ps seen \<sigma>) = files \<sigma>"
  "dirs (world_next ps seen \<sigma>) = dirs \<sigma>"
  "stdout (world_next ps seen \<sigma>) = stdout \<sigma>"
  "resize_calls (world_next ps seen \<sigma>) =
     resize_calls \<sigma> @ (if ps \<in> dom seen then [] else [ps])"
  by (auto simp: world_next_def)

lemma write_sizes_dirs:
  "write_sizes lib out im entries seen \<sigma> = (r, seen', \<sigma>') \<Longrightarrow> dirs \<sigma>' = dirs \<sigma>"
proof (induction entries arbitrary: seen \<sigma>)
  case Nil
  then show ?case by simp
next
  case (Cons entry rest)
  obtain ps names where entry: "entry = (ps, names)" by (cases entry)
  obtain r1 \<sigma>1 where inner:
    "write_filenames lib out (seen_next lib im ps seen) ps names (world_next ps seen \<sigma>) = (r1, \<sigma>1)"
    by fastforce
  from write_filenames_fields [OF inner] have d1: "dirs \<sigma>1 = dirs \<sigma>"
    by (simp add: world_next_fields)
  show ?case
  proof (cases r1)
    case (Inl e)
    with Cons.prems inner d1 show ?thesis
      by (simp add: entry write_sizes_Cons)
  next
    case (Inr v)
    with Cons.prems inner
    have "write_sizes lib out im rest (seen_next lib im ps seen) \<sigma>1 = (r, seen', \<sigma>')"
      by (simp add: entry write_sizes_Cons)
    from Cons.IH [OF this] d1 show ?thesis by simp
  qed
qed

lemma write_sizes_Inr:
  assumes "cache_ok lib im seen"
    and "write_sizes lib out im entries seen \<sigma> = (Inr u, seen', \<sigma>')"
  shows "(\<forall>n \<in> set (filenames_of entries). can_write \<sigma> (out @ [n])) \<and>
         stdout \<sigma>' = stdout \<sigma> @ map (\<lambda>n. out @ [n]) (filenames_of entries) \<and>
         resize_calls \<sigma>' = resize_calls \<sigma> @ cache_misses (dom seen) (map fst entries) \<and>
         (\<forall>n. files \<sigma>' (out @ [n]) =
            (case last_size entries n of
               Some s \<Rightarrow> Some (png lib (resize lib im (s, s)))
             | None \<Rightarrow> files \<sigma> (out @ [n]))) \<and>
         (\<forall>p. p \<notin> (\<lambda>n. out @ [n]) ` set (filenames_of entries) \<longrightarrow> files \<sigma>' p = files \<sigma> p) \<and>
         cache_ok lib im seen' \<and> dom seen' = dom seen \<union> set (map fst entries)"
  using assms
proof (induction entries arbitrary: seen \<sigma>)
  case Nil
  then show ?case by (simp add: filenames_of_def)
next
  case (Cons entry rest)
  obtain ps names where entry: "entry = (ps, names)" by (cases entry)
  let ?seen1 = "seen_next lib im ps seen"
  let ?\<sigma>0 = "world_next ps seen \<sigma>"
  obtain r1 \<sigma>1 where inner: "write_filenames lib out ?seen1 ps names ?\<sigma>0 = (r1, \<sigma>1)"
    by fastforce
  with Cons.prems(2) have r1: "r1 = Inr ()"
    and rest: "write_sizes lib out im rest ?seen1 \<sigma>1 = (Inr u, seen', \<sigma>')"
    by (auto simp: entry write_sizes_Cons split: sum.splits)
  note in1 = write_filenames_Inr [OF seen_next_ps [OF Cons.prems(1)] inner [unfolded r1]]
  note in2 = write_filenames_fields [OF inner]
  note IH = Cons.IH [OF cache_ok_seen_next [OF Cons.prems(1)] rest]
  have same: "can_write \<sigma>1 q = can_write \<sigma> q" "can_write ?\<sigma>0 q = can_write \<sigma> q" for q
    using in2 by (simp_all add: can_write_def is_dir_def world_next_fields)
  have names: "filenames_of (entry # rest) = names @ filenames_of rest"
    by (simp add: filenames_of_def entry)
  have c1: "\<forall>n \<in> set (filenames_of (entry # rest)). can_write \<sigma> (out @ [n])"
    using in1 IH by (auto simp: names same)
  have c2: "stdout \<sigma>' = stdout \<sigma> @ map (\<lambda>n. out @ [n]) (filenames_of (entry # rest))"
    using in1 IH by (simp add: names world_next_fields)
  have c3: "resize_calls \<sigma>' =
      resize_calls \<sigma> @ cache_misses (dom seen) (map fst (entry # rest))"
    using in2 IH by (simp add: entry world_next_fields dom_seen_next insert_absorb)
  have files1: "files \<sigma>1 p =
      (if p \<in> (\<lambda>n. out @ [n]) ` set names then Some (png lib (resize lib im (ps, ps)))
       else files \<sigma> p)" for p
    using in1 by (simp add: world_next_fields)
  have c4: "files \<sigma>' (out @ [n]) =
      (case last_size (entry # rest) n of
         Some s \<Rightarrow> Some (png lib (resize lib im (s, s)))
       | None \<Rightarrow> files \<sigma> (out @ [n]))" for n
    using IH by (auto simp: entry files1 split: option.splits)
  have c5: "p \<notin> (\<lambda>n. out @ [n]) ` set (filenames_of (entry # rest)) \<Longrightarrow>
      files \<sigma>' p = files \<sigma> p" for p
  proof -
    assume "p \<notin> (\<lambda>n. out @ [n]) ` set (filenames_of (entry # rest))"
    then have a: "p \<notin> (\<lambda>n. out @ [n]) ` set names"
      and b: "p \<notin> (\<lambda>n. out @ [n]) ` set (filenames_of rest)"
      by (auto simp: names)
    from IH b have "files \<sigma>' p = files \<sigma>1 p" by blast
    with a show ?thesis by (simp add: files1)
  qed
  have c6: "cache_ok lib im seen'" using IH by simp
  have c7: "dom seen' = dom seen \<union> set (map fst (entry # rest))"
    using IH by (auto simp: entry dom_seen_next)
  from c1 c2 c3 c4 c5 c6 c7 show ?case by blast
qed

lemma write_sizes_succeeds:
  "\<forall>n \<in> set (filenames_of entries). can_write \<sigma> (out @ [n]) \<Longrightarrow>
   fst (write_sizes lib out im entries seen \<sigma>) = Inr ()"
proof (induction entries arbitrary: seen \<sigma>)
  case Nil
  then show ?case by simp
next
  case (Cons entry rest)
  obtain ps names where entry: "entry = (ps, names)" by (cases entry)
  let ?seen1 = "seen_next lib im ps seen"
  let ?\<sigma>0 = "world_next ps seen \<sigma>"
  obtain img where img: "?seen1 ps = Some img"
    using seen_next_Some by blast
  obtain r1 \<sigma>1 where inner: "write_filenames lib out ?seen1 ps names ?\<sigma>0 = (r1, \<sigma>1)"
    by fastforce
  have same: "can_write \<sigma>1 q = can_write \<sigma> q" "can_write ?\<sigma>0 q = can_write \<sigma> q" for q
    using write_filenames_fields [OF inner]
    by (simp_all add: can_write_def is_dir_def world_next_fields)
  have names: "filenames_of (entry # rest) = names @ filenames_of rest"
    by (simp add: filenames_of_def entry)
  from Cons.prems have "\<forall>n \<in> set names. can_write ?\<sigma>0 (out @ [n])"
    by (simp add: names same)
  with img have "fst (write_filenames lib out ?seen1 ps names ?\<sigma>0) = Inr ()"
    by (rule write_filenames_succeeds)
  with inner have r1: "r1 = Inr ()"
    by simp
  from Cons.prems have "fst (write_sizes lib out im rest ?seen1 \<sigma>1) = Inr ()"
    by (intro Cons.IH) (simp add: names same)
  with inner r1 show ?case
    by (simp add: entry write_sizes_Cons)
qed

lemma mkdir_fields:
  "mkdir p \<sigma> = (r, \<sigma>') \<Longrightarrow>
   files \<sigma>' = files \<sigma> \<and> stdout \<sigma>' = stdout \<sigma> \<and> resize_calls \<sigma>' = resize_calls \<sigma> \<and>
   dirs \<sigma> \<subseteq> dirs \<sigma>'"
  unfolding mkdir_def by (drule mkdir_each_fields) simp

lemma mkdir_Inr: "mkdir p \<sigma> = (Inr u, \<sigma>') \<Longrightarrow> dirs \<sigma>' = dirs \<sigma> \<union> set (ancestors p)"
  unfolding mkdir_def by (rule mkdir_each_Inr)

lemma mkdir_is_dir: "mkdir p \<sigma> = (Inr u, \<sigma>') \<Longrightarrow> is_dir \<sigma>' p"
  by (cases "p = []") (auto simp: is_dir_def dest: mkdir_Inr self_in_ancestors)

lemma main_mkdir_Inl:
  "mkdir out \<sigma> = (Inl e, \<sigma>m) \<Longrightarrow> main lib out \<sigma> = (Inl e, \<sigma>m)"
  by (simp add: main_def)

lemma main_open_Inl:
  "mkdir out \<sigma> = (Inr u, \<sigma>m) \<Longrightarrow> Image_open_RGB lib SRC \<sigma>m = Inl e \<Longrightarrow>
   main lib out \<sigma> = (Inl e, \<sigma>m)"
  by (simp add: main_def)

lemma main_loop:
  "mkdir out \<sigma> = (Inr u, \<sigma>m) \<Longrightarrow> Image_open_RGB lib SRC \<sigma>m = Inr im \<Longrightarrow>
   write_sizes lib out (prepare im) SIZES Map.empty \<sigma>m = (r, seen', \<sigma>') \<Longrightarrow>
   main lib out \<sigma> = (r, \<sigma>')"
  by (simp add: main_def prepare_def)

lemma main_Inr:
  assumes "fst (main lib out \<sigma>) = Inr ()"
  obtains \<sigma>m im seen' where "mkdir out \<sigma> = (Inr (), \<sigma>m)"
    and "Image_open_RGB lib SRC \<sigma>m = Inr im"
    and "write_sizes lib out (prepare im) SIZES Map.empty \<sigma>m = (Inr (), seen', snd (main lib out \<sigma>))"
proof -
  obtain r1 \<sigma>m where mk: "mkdir out \<sigma> = (r1, \<sigma>m)" by fastforce
  show thesis
  proof (cases r1)
    case (Inl e)
    with mk assms main_mkdir_Inl [of out \<sigma> e \<sigma>m lib] show ?thesis by simp
  next
    case (Inr u)
    with mk have mk': "mkdir out \<sigma> = (Inr (), \<sigma>m)" by simp
    show ?thesis
    proof (cases "Image_open_RGB lib SRC \<sigma>m")
      case (Inl e)
      from main_open_Inl [OF mk' this] assms show ?thesis by simp
    next
      case (Inr im)
      obtain r seen' \<sigma>' where loop:
        "write_sizes lib out (prepare im) SIZES Map.empty \<sigma>m = (r, seen', \<sigma>')"
        using prod_cases3 by blast
      from main_loop [OF mk' Inr loop] assms have "r = Inr ()" "\<sigma>' = snd (main lib out \<sigma>)"
        by simp_all
      with loop mk' Inr that show ?thesis by simp
    qed
  qed
qed

lemma Image_open_RGB_Inr:
  "Image_open_RGB lib p \<sigma> = Inr im \<longleftrightarrow>
     \<not> is_dir \<sigma> p \<and> (\<exists>content. files \<sigma> p = Some content \<and> decode_rgb lib content = Some im)"
  by (auto simp: Image_open_RGB_def split: option.splits)

lemma cache_ok_empty: "cache_ok lib im Map.empty"
  by (simp add: cache_ok_def)

lemma filenames_of_SIZES:
  "filenames_of SIZES =
    [''icon-20.png'', ''icon-20@2x.png'', ''icon-20@2x-ipad.png'', ''icon-20@3x.png'',
     ''icon-29.png'', ''icon-29@2x.png'', ''icon-29@2x-ipad.png'', ''icon-29@3x.png'',
     ''icon-40.png'', ''icon-40@2x.png'', ''icon-40@2x-ipad.png'', ''icon-40@3x.png'',
     ''icon-60@2x.png'', ''icon-60@3x.png'', ''icon-76.png'', ''icon-76@2x.png'',
     ''icon-83.5@2x.png'', ''icon-1024.png'', ''icon-mac-16.png'', ''icon-mac-16@2x.png'',
     ''icon-mac-32.png'', ''icon-mac-32@2x.png'', ''icon-mac-128.png'',
     ''icon-mac-128@2x.png'', ''icon-mac-256.png'', ''icon-mac-256@2x.png'',
     ''icon-mac-512.png'', ''icon-mac-512@2x.png'']"
  by (simp add: filenames_of_def SIZES_def)

lemma length_filenames_of_SIZES: "length (filenames_of SIZES) = 28"
  by (simp add: filenames_of_SIZES)

lemma distinct_filenames_of_SIZES: "distinct (filenames_of SIZES)"
  unfolding filenames_of_SIZES by simp

lemma cache_misses_SIZES:
  "cache_misses {} (map fst SIZES) =
     [20, 40, 60, 29, 58, 87, 80, 120, 180, 76, 152, 167, 1024, 16, 32, 64, 128, 256, 512]"
  by (simp add: SIZES_def)

lemma SRC_not_output: "n \<in> set (filenames_of SIZES) \<Longrightarrow> out @ [n] \<noteq> SRC"
proof
  assume n: "n \<in> set (filenames_of SIZES)" and "out @ [n] = SRC"
  then have "last SRC = n" by (metis last_snoc)
  with n show False by (auto simp: SRC_def filenames_of_SIZES)
qed

lemma filenames_of_Cons:
  "filenames_of ((s, names) # entries) = names @ filenames_of entries"
  by (simp add: filenames_of_def)

lemma filenames_of_Nil: "filenames_of [] = []"
  by (simp add: filenames_of_def)

lemma last_size_None: "name \<notin> set (filenames_of entries) \<Longrightarrow> last_size entries name = None"
proof (induction entries)
  case Nil
  then show ?case by simp
next
  case (Cons entry rest)
  obtain ps ns where entry: "entry = (ps, ns)" by (cases entry)
  with Cons show ?case by (simp add: filenames_of_Cons)
qed

lemma last_size_Some:
  "name \<in> set (filenames_of entries) \<Longrightarrow> \<exists>s. last_size entries name = Some s"
proof (induction entries)
  case Nil
  then show ?case by (simp add: filenames_of_Nil)
next
  case (Cons entry rest)
  obtain ps ns where entry: "entry = (ps, ns)" by (cases entry)
  with Cons show ?case
    by (cases "last_size rest name") (auto simp: filenames_of_Cons)
qed

lemma last_size_distinct:
  "distinct (filenames_of entries) \<Longrightarrow> (s, names) \<in> set entries \<Longrightarrow> name \<in> set names \<Longrightarrow>
   last_size entries name = Some s"
proof (induction entries)
  case Nil
  then show ?case by simp
next
  case (Cons entry rest)
  obtain ps ns where entry: "entry = (ps, ns)" by (cases entry)
  from Cons.prems(1) have d: "distinct (filenames_of rest)"
    and disj: "set ns \<inter> set (filenames_of rest) = {}"
    by (simp_all add: filenames_of_Cons entry)
  show ?case
  proof (cases "(s, names) \<in> set rest")
    case True
    from Cons.IH [OF d True Cons.prems(3)] show ?thesis by (simp add: entry)
  next
    case False
    with Cons.prems(2) have eq: "ps = s" "ns = names" by (simp_all add: entry)
    with disj Cons.prems(3) have "name \<notin> set (filenames_of rest)" by auto
    from last_size_None [OF this] eq Cons.prems(3) show ?thesis by (simp add: entry)
  qed
qed

lemma last_size_SIZES:
  "(s, names) \<in> set SIZES \<Longrightarrow> name \<in> set names \<Longrightarrow> last_size SIZES name = Some s"
  by (rule last_size_distinct [OF distinct_filenames_of_SIZES])

lemma in_filenames_of: "(s, names) \<in> set entries \<Longrightarrow> name \<in> set names \<Longrightarrow> name \<in> set (filenames_of entries)"
  by (force simp: filenames_of_def)

lemma SRC_not_Nil: "SRC \<noteq> []"
  by (simp add: SRC_def)

text \<open>What a run that completes has done.\<close>

lemma main_Inr_world:
  assumes "main lib out \<sigma> = (Inr (), \<sigma>')"
  obtains content im where
    "mkdir out \<sigma> = (Inr (), \<sigma>'\<lparr>files := files \<sigma>, stdout := stdout \<sigma>, resize_calls := resize_calls \<sigma>\<rparr>)"
    "files \<sigma> SRC = Some content" "decode_rgb lib content = Some im"
    "\<not> is_dir \<sigma>' SRC"
    "dirs \<sigma>' = dirs \<sigma> \<union> set (ancestors out)"
    "is_dir \<sigma>' out"
    "\<forall>n \<in> set (filenames_of SIZES). can_write \<sigma>' (out @ [n])"
    "stdout \<sigma>' = stdout \<sigma> @ map (\<lambda>n. out @ [n]) (filenames_of SIZES)"
    "resize_calls \<sigma>' = resize_calls \<sigma> @ cache_misses {} (map fst SIZES)"
    "\<forall>n. files \<sigma>' (out @ [n]) =
       (case last_size SIZES n of
          Some s \<Rightarrow> Some (png lib (resize lib (prepare im) (s, s)))
        | None \<Rightarrow> files \<sigma> (out @ [n]))"
    "\<forall>p. p \<notin> (\<lambda>n. out @ [n]) ` set (filenames_of SIZES) \<longrightarrow> files \<sigma>' p = files \<sigma> p"
proof -
  from assms have ok: "fst (main lib out \<sigma>) = Inr ()" and \<sigma>': "snd (main lib out \<sigma>) = \<sigma>'"
    by simp_all
  from main_Inr [OF ok] obtain \<sigma>m im seen' where mk: "mkdir out \<sigma> = (Inr (), \<sigma>m)"
    and op: "Image_open_RGB lib SRC \<sigma>m = Inr im"
    and loop: "write_sizes lib out (prepare im) SIZES Map.empty \<sigma>m = (Inr (), seen', \<sigma>')"
    unfolding \<sigma>' by blast
  note m = mkdir_fields [OF mk] mkdir_Inr [OF mk]
  note l = write_sizes_Inr [OF cache_ok_empty loop]
  have d: "dirs \<sigma>' = dirs \<sigma>m" by (rule write_sizes_dirs [OF loop])
  from op obtain content where src: "\<not> is_dir \<sigma>m SRC" "files \<sigma>m SRC = Some content"
    "decode_rgb lib content = Some im"
    unfolding Image_open_RGB_Inr by blast
  have same: "can_write \<sigma>' q = can_write \<sigma>m q" "is_dir \<sigma>' q = is_dir \<sigma>m q" for q
    by (simp_all add: can_write_def is_dir_def d)
  have \<sigma>m: "\<sigma>m = \<sigma>'\<lparr>files := files \<sigma>, stdout := stdout \<sigma>, resize_calls := resize_calls \<sigma>\<rparr>"
    using m d by simp
  show thesis
  proof (rule that [of content im])
    show "mkdir out \<sigma> = (Inr (), \<sigma>'\<lparr>files := files \<sigma>, stdout := stdout \<sigma>, resize_calls := resize_calls \<sigma>\<rparr>)"
      using mk \<sigma>m by simp
    show "files \<sigma> SRC = Some content" using src m by simp
    show "decode_rgb lib content = Some im" by (rule src)
    show "\<not> is_dir \<sigma>' SRC" using src by (simp add: same)
    show "dirs \<sigma>' = dirs \<sigma> \<union> set (ancestors out)" using m d by simp
    show "is_dir \<sigma>' out" using mkdir_is_dir [OF mk] by (simp add: same)
    show "\<forall>n \<in> set (filenames_of SIZES). can_write \<sigma>' (out @ [n])"
      using l by (simp add: same)
    show "stdout \<sigma>' = stdout \<sigma> @ map (\<lambda>n. out @ [n]) (filenames_of SIZES)"
      using l m by simp
    show "resize_calls \<sigma>' = resize_calls \<sigma> @ cache_misses {} (map fst SIZES)"
      using l m by simp
    show "\<forall>n. files \<sigma>' (out @ [n]) =
       (case last_size SIZES n of
          Some s \<Rightarrow> Some (png lib (resize lib (prepare im) (s, s)))
        | None \<Rightarrow> files \<sigma> (out @ [n]))"
      using l m by (simp cong: option.case_cong)
    show "\<forall>p. p \<notin> (\<lambda>n. out @ [n]) ` set (filenames_of SIZES) \<longrightarrow> files \<sigma>' p = files \<sigma> p"
      using l m by simp
  qed
qed

lemma main_succeeds:
  assumes mk: "fst (mkdir out \<sigma>) = Inr ()"
    and src: "files \<sigma> SRC = Some content" "decode_rgb lib content = Some im"
      "SRC \<notin> dirs \<sigma>" "SRC \<notin> set (ancestors out)"
    and outs: "\<forall>n \<in> set (filenames_of SIZES). out @ [n] \<notin> dirs \<sigma>"
  shows "fst (main lib out \<sigma>) = Inr ()"
proof -
  obtain \<sigma>m where mk': "mkdir out \<sigma> = (Inr (), \<sigma>m)"
    using mk by (cases "mkdir out \<sigma>") simp
  note m = mkdir_fields [OF mk'] mkdir_Inr [OF mk']
  have "\<not> is_dir \<sigma>m SRC"
    using src m by (simp add: is_dir_def SRC_not_Nil)
  with src m have op: "Image_open_RGB lib SRC \<sigma>m = Inr im"
    by (simp add: Image_open_RGB_Inr)
  have "\<forall>n \<in> set (filenames_of SIZES). can_write \<sigma>m (out @ [n])"
    using outs m mkdir_is_dir [OF mk'] by (simp add: can_write_def is_dir_def [of _ "_ @ _"] child_not_ancestor)
  then have ok: "fst (write_sizes lib out (prepare im) SIZES Map.empty \<sigma>m) = Inr ()"
    by (rule write_sizes_succeeds)
  obtain r seen' \<sigma>' where loop: "write_sizes lib out (prepare im) SIZES Map.empty \<sigma>m = (r, seen', \<sigma>')"
    using prod_cases3 by blast
  from main_loop [OF mk' op loop] ok loop show ?thesis by simp
qed

lemma main_dirs:
  assumes "fst (mkdir out \<sigma>) = Inr ()"
  shows "dirs (snd (main lib out \<sigma>)) = dirs \<sigma> \<union> set (ancestors out)"
proof -
  from assms have mk: "mkdir out \<sigma> = (Inr (), snd (mkdir out \<sigma>))"
    by (simp add: prod_eq_iff)
  let ?\<sigma>m = "snd (mkdir out \<sigma>)"
  have "dirs (snd (main lib out \<sigma>)) = dirs ?\<sigma>m"
  proof (cases "Image_open_RGB lib SRC ?\<sigma>m")
    case (Inl e)
    from main_open_Inl [OF mk this] show ?thesis by simp
  next
    case (Inr im)
    obtain r seen' \<sigma>' where loop:
      "write_sizes lib out (prepare im) SIZES Map.empty ?\<sigma>m = (r, seen', \<sigma>')"
      using prod_cases3 by blast
    from main_loop [OF mk Inr loop] write_sizes_dirs [OF loop] show ?thesis by simp
  qed
  with mkdir_Inr [OF mk] show ?thesis by simp
qed

lemma sample_succeeds:
  assumes "SRC \<notin> set (ancestors out)"
  shows "fst (main sample_pil out sample_world) = Inr ()"
proof -
  have "fst (mkdir out sample_world) = Inr ()"
    unfolding mkdir_def using assms by (intro mkdir_each_succeeds) (simp add: sample_world_def)
  moreover have "files sample_world SRC = Some [255]" by (simp add: sample_world_def)
  moreover have "decode_rgb sample_pil [255] =
      Some \<lparr>width = 2, height = 1, data = [(255, 255, 255), (0, 0, 0)],
            transparency = None\<rparr>"
    by (simp add: sample_pil_def sample_decode_def)
  moreover have "SRC \<notin> dirs sample_world" by (simp add: sample_world_def)
  moreover note assms
  moreover have "\<forall>n \<in> set (filenames_of SIZES). out @ [n] \<notin> dirs sample_world"
    by (simp add: sample_world_def)
  ultimately show ?thesis by (rule main_succeeds)
qed

lemma sample_run: "main sample_pil sample_out_dir sample_world = (Inr (), sample_result)"
proof -
  have "SRC \<notin> set (ancestors sample_out_dir)"
    by (simp add: sample_out_dir_def SRC_def)
  from sample_succeeds [OF this] show ?thesis
    by (simp add: sample_result_def prod_eq_iff)
qed

lemma resize_size: "width (resize lib im (w, h)) = w \<and> height (resize lib im (w, h)) = h"
  by (simp add: resize_def)

lemma Image_open_RGB_unreadable:
  assumes "source_unreadable lib \<sigma>" "files \<sigma>m = files \<sigma>"
  shows "Image_open_RGB lib SRC \<sigma>m \<in>
           {Inl FileNotFoundError, Inl IsADirectoryError, Inl UnidentifiedImageError}"
  using assms by (auto simp: source_unreadable_def Image_open_RGB_def split: option.splits)

lemma main_unreadable:
  assumes "source_unreadable lib \<sigma>"
  shows "\<exists>e. main lib out \<sigma> = (Inl e, snd (mkdir out \<sigma>)) \<and>
           (fst (mkdir out \<sigma>) = Inr () \<longrightarrow>
              e \<in> {FileNotFoundError, IsADirectoryError, UnidentifiedImageError})"
proof -
  obtain r \<sigma>m where mk: "mkdir out \<sigma> = (r, \<sigma>m)" by fastforce
  show ?thesis
  proof (cases r)
    case (Inl e)
    with mk main_mkdir_Inl [of out \<sigma> e \<sigma>m lib] show ?thesis by simp
  next
    case (Inr u)
    with mk have mk': "mkdir out \<sigma> = (Inr (), \<sigma>m)" by simp
    from mkdir_fields [OF mk'] have "files \<sigma>m = files \<sigma>" by simp
    from Image_open_RGB_unreadable [OF assms this]
    obtain e where e: "Image_open_RGB lib SRC \<sigma>m = Inl e"
      "e \<in> {FileNotFoundError, IsADirectoryError, UnidentifiedImageError}"
      by auto
    from main_open_Inl [OF mk' e(1)] e(2) mk' show ?thesis by simp
  qed
qed

lemma SRC_not_in_outputs: "SRC \<notin> (\<lambda>n. out @ [n]) ` set (filenames_of SIZES)"
proof
  assume "SRC \<in> (\<lambda>n. out @ [n]) ` set (filenames_of SIZES)"
  then obtain n where "n \<in> set (filenames_of SIZES)" "SRC = out @ [n]" by blast
  with SRC_not_output [of n out] show False by simp
qed

lemma main_Inr_file:
  assumes "main lib out \<sigma> = (Inr (), \<sigma>')"
    and "files \<sigma> SRC = Some content" and "decode_rgb lib content = Some im"
    and "name \<in> set (filenames_of SIZES)"
  shows "\<exists>s. last_size SIZES name = Some s \<and>
             files \<sigma>' (out @ [name]) = Some (png lib (resize lib (prepare im) (s, s)))"
proof -
  from assms(1) obtain content' im' where src: "files \<sigma> SRC = Some content'"
    "decode_rgb lib content' = Some im'"
    and written: "\<forall>n. files \<sigma>' (out @ [n]) =
       (case last_size SIZES n of
          Some s \<Rightarrow> Some (png lib (resize lib (prepare im') (s, s)))
        | None \<Rightarrow> files \<sigma> (out @ [n]))"
    by (rule main_Inr_world)
  from src assms(2,3) have "im' = im" by simp
  with written last_size_Some [OF assms(4)] show ?thesis by auto
qed

lemma main_again:
  assumes "main lib out \<sigma> = (Inr (), \<sigma>1)"
  shows "fst (main lib out \<sigma>1) = Inr () \<and> files \<sigma>1 SRC = files \<sigma> SRC \<and>
         set (ancestors out) \<subseteq> dirs \<sigma>1"
proof -
  from assms obtain content im where src: "files \<sigma> SRC = Some content"
    "decode_rgb lib content = Some im" "\<not> is_dir \<sigma>1 SRC"
    and dirs: "dirs \<sigma>1 = dirs \<sigma> \<union> set (ancestors out)"
    and cw: "\<forall>n \<in> set (filenames_of SIZES). can_write \<sigma>1 (out @ [n])"
    and others: "\<forall>p. p \<notin> (\<lambda>n. out @ [n]) ` set (filenames_of SIZES) \<longrightarrow> files \<sigma>1 p = files \<sigma> p"
    by (rule main_Inr_world)
  have anc: "set (ancestors out) \<subseteq> dirs \<sigma>1" using dirs by simp
  then have mk: "fst (mkdir out \<sigma>1) = Inr ()"
    by (simp add: mkdir_def mkdir_each_existing)
  from others SRC_not_in_outputs have same: "files \<sigma>1 SRC = files \<sigma> SRC" by blast
  have s1: "files \<sigma>1 SRC = Some content" using same src by simp
  have s2: "SRC \<notin> dirs \<sigma>1" using src by (simp add: is_dir_def)
  with anc have s3: "SRC \<notin> set (ancestors out)" by blast
  have outs: "\<forall>n \<in> set (filenames_of SIZES). out @ [n] \<notin> dirs \<sigma>1"
    using cw by (simp add: can_write_def is_dir_def)
  from main_succeeds [OF mk s1 src(2) s2 s3 outs] same anc show ?thesis by simp
qed

section \<open>The claims about the raster operations\<close>

text \<open>
  C2. When the width and the height of the loaded image differ, the crop step gives a
  square of side \<open>min w h\<close>: it is the crop at the offset \<open>(larger - smaller) div 2\<close> on
  the longer axis and 0 on the shorter one, so the pixel at \<open>(x, y)\<close> of the result is
  the pixel of the source at the offset plus \<open>(x, y)\<close>. When they are equal, the image is
  unchanged.
\<close>

theorem square_crop_centered:
  fixes im :: "'p image"
  shows "(width im \<noteq> height im \<longrightarrow>
           width (square_crop im) = min (width im) (height im) \<and>
           height (square_crop im) = min (width im) (height im) \<and>
           square_crop im =
             crop im
               (if height im < width im then (width im - height im) div 2 else 0,
                if width im < height im then (height im - width im) div 2 else 0,
                (if height im < width im then (width im - height im) div 2 else 0)
                  + min (width im) (height im),
                (if width im < height im then (height im - width im) div 2 else 0)
                  + min (width im) (height im)) \<and>
           (\<forall>x y. 0 \<le> x \<and> x < min (width im) (height im) \<and>
                  0 \<le> y \<and> y < min (width im) (height im) \<longrightarrow>
              getpixel (square_crop im) (x, y) =
                getpixel im
                  ((if height im < width im then (width im - height im) div 2 else 0) + x,
                   (if width im < height im then (height im - width im) div 2 else 0) + y))) \<and>
         (width im = height im \<longrightarrow> square_crop im = im)"
proof -
  let ?w = "width im" and ?h = "height im"
  let ?s = "min ?w ?h"
  let ?left = "if ?h < ?w then (?w - ?h) div 2 else 0"
  let ?top = "if ?w < ?h then (?h - ?w) div 2 else 0"
  have box: "crop_box ?w ?h = (?left, ?top, ?left + ?s, ?top + ?s)"
    by (simp add: crop_box_def Let_def min_def)
  have same: "?w = ?h \<Longrightarrow> square_crop im = im"
    by (simp add: square_crop_def)
  have sq: "?w \<noteq> ?h \<Longrightarrow> square_crop im = crop im (?left, ?top, ?left + ?s, ?top + ?s)"
    unfolding square_crop_def Let_def box by simp
  have dims: "width (crop im (?left, ?top, ?left + ?s, ?top + ?s)) = ?s"
    "height (crop im (?left, ?top, ?left + ?s, ?top + ?s)) = ?s"
    by (simp_all add: crop_def)
  have px: "getpixel (crop im (?left, ?top, ?left + ?s, ?top + ?s)) (x, y) =
      getpixel im (?left + x, ?top + y)"
    if "0 \<le> x" "x < ?s" "0 \<le> y" "y < ?s" for x y
    using that by (intro getpixel_crop) simp_all
  show ?thesis
    using same sq dims px by presburger
qed

theorem square_crop_centered_witness:
  "width wide_image \<noteq> height wide_image \<and>
   width (square_crop wide_image) = 2 \<and> height (square_crop wide_image) = 2 \<and>
   square_crop wide_image = crop wide_image (1, 0, 3, 2) \<and>
   getpixel (square_crop wide_image) (0, 1) = 5 \<and>
   square_crop \<lparr>width = 1, height = 1, data = [7 :: nat], transparency = None\<rparr> = \<lparr>width = 1, height = 1, data = [7], transparency = None\<rparr>"
proof -
  have size: "width wide_image = 4" "height wide_image = 2"
    by (simp_all add: wide_image_def)
  have ne: "(4::int) \<noteq> 2" by simp
  note wide = square_crop_centered [of wide_image, unfolded size, THEN conjunct1, THEN mp, OF ne]
  have "width (square_crop wide_image) = 2"
    using wide [THEN conjunct1] by simp
  moreover have "height (square_crop wide_image) = 2"
    using wide [THEN conjunct2, THEN conjunct1] by simp
  moreover have "square_crop wide_image = crop wide_image (1, 0, 3, 2)"
    using wide [THEN conjunct2, THEN conjunct2, THEN conjunct1] by simp
  moreover have "getpixel (square_crop wide_image) (0, 1) = 5"
    using wide [THEN conjunct2, THEN conjunct2, THEN conjunct2, THEN spec, THEN spec, of 0 1]
    by (simp add: getpixel_fields wide_image_def)
  moreover have "square_crop \<lparr>width = 1, height = 1, data = [7 :: nat], transparency = None\<rparr> =
      \<lparr>width = 1, height = 1, data = [7], transparency = None\<rparr>"
    using square_crop_centered [of "\<lparr>width = 1, height = 1, data = [7 :: nat], transparency = None\<rparr>"] by simp
  ultimately show ?thesis by (simp add: size)
qed

text \<open>
  C3, as the script has it. With the default threshold, the output pixel at every
  position is decided by the input pixel at that position and the colour key of the
  image, and by no other pixel: when all of R, G and B are at least 235 the alpha becomes
  0 and R, G, B stay; otherwise the pixel stays as the conversion made it, with R, G, B
  unchanged and alpha 255, except for a pixel of the keyed colour, whose alpha is 0. For
  an image without a colour key the alpha of such a pixel is 255.
\<close>

theorem make_background_transparent_pixel:
  assumes "i < length (data img)" and "data img ! i = (r, g, b)"
  shows "length (data (make_background_transparent img default_threshold)) = length (data img) \<and>
         data (make_background_transparent img default_threshold) ! i =
           (if 235 \<le> uint r \<and> 235 \<le> uint g \<and> 235 \<le> uint b then (r, g, b, 0)
            else if keyed (transparency img) (r, g, b) then (r, g, b, 0)
            else (r, g, b, 255)) \<and>
         (transparency img = None \<longrightarrow>
            data (make_background_transparent img default_threshold) ! i =
              (if 235 \<le> uint r \<and> 235 \<le> uint g \<and> 235 \<le> uint b
               then (r, g, b, 0) else (r, g, b, 255))) \<and>
         (\<forall>img'. i < length (data img') \<and> data img' ! i = data img ! i \<and>
                 transparency img' = transparency img \<longrightarrow>
            data (make_background_transparent img' default_threshold) ! i =
              data (make_background_transparent img default_threshold) ! i)"
  using assms
  by (simp add: data_make_background_transparent transparent_item_def default_threshold_def
      keyed_def)

theorem make_background_transparent_pixel_witness:
  "data (make_background_transparent two_pixels default_threshold) ! 0 = (255, 240, 235, 0) \<and>
   data (make_background_transparent two_pixels default_threshold) ! 1 = (255, 234, 255, 255) \<and>
   data (make_background_transparent keyed_pixels default_threshold) ! 0 = (10, 20, 30, 0) \<and>
   data (make_background_transparent keyed_pixels default_threshold) ! 1 = (200, 100, 50, 255)"
  using make_background_transparent_pixel [of 0 two_pixels 255 240 235]
    make_background_transparent_pixel [of 1 two_pixels 255 234 255]
    make_background_transparent_pixel [of 0 keyed_pixels 10 20 30]
    make_background_transparent_pixel [of 1 keyed_pixels 200 100 50]
  by (simp add: two_pixels_def keyed_pixels_def keyed_def)

theorem make_background_transparent_alpha_counterexample:
  "0 < length (data keyed_pixels) \<and>
   data keyed_pixels ! 0 = (10, 20, 30) \<and>
   uint (10 :: channel) < 235 \<and>
   data (make_background_transparent keyed_pixels default_threshold) ! 0 \<noteq> (10, 20, 30, 255) \<and>
   data (make_background_transparent keyed_pixels default_threshold) ! 0 = (10, 20, 30, 0)"
  by (simp add: keyed_pixels_def data_make_background_transparent transparent_item_def
      default_threshold_def keyed_def)

text \<open>
  C10. \<^verbatim>\<open>make_background_transparent\<close> returns an image of the width and the height
  of its input, with as many pixels; so the raster handed to the resize step is a square
  of side \<open>min w h\<close> of the loaded image.
\<close>

theorem make_background_transparent_size:
  "width (make_background_transparent img threshold) = width img \<and>
   height (make_background_transparent img threshold) = height img \<and>
   length (data (make_background_transparent img threshold)) = length (data img) \<and>
   width (make_background_transparent (square_crop im) threshold) = min (width im) (height im) \<and>
   height (make_background_transparent (square_crop im) threshold) = min (width im) (height im)"
proof -
  have "width (square_crop im) = min (width im) (height im)"
    "height (square_crop im) = min (width im) (height im)"
    by (simp_all add: square_crop_def Let_def crop_box_def crop_def)
  then show ?thesis
    by (simp add: width_make_background_transparent height_make_background_transparent
        data_make_background_transparent)
qed

section \<open>The claims about a run\<close>

lemma printed_append: "stdout \<sigma>' = stdout \<sigma> @ xs \<Longrightarrow> printed \<sigma> \<sigma>' = xs"
  by (simp add: printed_def)

lemma resized_append: "resize_calls \<sigma>' = resize_calls \<sigma> @ xs \<Longrightarrow> resized \<sigma> \<sigma>' = xs"
  by (simp add: resized_def)

lemma distinct_out_paths: "distinct (map (\<lambda>n. out @ [n]) (filenames_of SIZES))"
  by (simp add: distinct_map distinct_filenames_of_SIZES inj_on_def)

text \<open>
  C1, as the script has it. A run that completes writes 28 files, one for each of the
  28 filenames that the 22 entries of \<^verbatim>\<open>SIZES\<close> list, and no other file.
\<close>

theorem main_writes_every_filename:
  assumes "main lib out \<sigma> = (Inr (), \<sigma>')"
  shows "printed \<sigma> \<sigma>' = map (\<lambda>name. out @ [name]) (filenames_of SIZES) \<and>
         distinct (printed \<sigma> \<sigma>') \<and>
         length (printed \<sigma> \<sigma>') = 28 \<and>
         length SIZES = 22 \<and>
         (\<forall>p \<in> set (printed \<sigma> \<sigma>'). files \<sigma>' p \<noteq> None) \<and>
         (\<forall>p. p \<notin> set (printed \<sigma> \<sigma>') \<longrightarrow> files \<sigma>' p = files \<sigma> p)"
proof -
  from assms obtain im where
    out: "stdout \<sigma>' = stdout \<sigma> @ map (\<lambda>n. out @ [n]) (filenames_of SIZES)"
    and written: "\<forall>n. files \<sigma>' (out @ [n]) =
       (case last_size SIZES n of
          Some s \<Rightarrow> Some (png lib (resize lib (prepare im) (s, s)))
        | None \<Rightarrow> files \<sigma> (out @ [n]))"
    and others: "\<forall>p. p \<notin> (\<lambda>n. out @ [n]) ` set (filenames_of SIZES) \<longrightarrow> files \<sigma>' p = files \<sigma> p"
    by (rule main_Inr_world)
  note p = printed_append [OF out]
  have "files \<sigma>' (out @ [n]) \<noteq> None" if "n \<in> set (filenames_of SIZES)" for n
    using last_size_Some [OF that] written by auto
  then have "\<forall>p \<in> set (printed \<sigma> \<sigma>'). files \<sigma>' p \<noteq> None"
    unfolding p by auto
  moreover have "\<forall>p. p \<notin> set (printed \<sigma> \<sigma>') \<longrightarrow> files \<sigma>' p = files \<sigma> p"
    unfolding p using others by simp
  moreover have "length SIZES = 22" by (simp add: SIZES_def)
  ultimately show ?thesis
    by (simp add: p distinct_out_paths length_filenames_of_SIZES)
qed

theorem main_writes_every_filename_witness:
  "main sample_pil sample_out_dir sample_world = (Inr (), sample_result) \<and>
   printed sample_world sample_result ! 2 = sample_out_dir @ [''icon-20@2x-ipad.png''] \<and>
   length (printed sample_world sample_result) = 28 \<and>
   files sample_result (sample_out_dir @ [''icon-20@2x-ipad.png'']) \<noteq> None"
proof -
  note run = main_writes_every_filename [OF sample_run]
  from run have p: "printed sample_world sample_result =
      map (\<lambda>name. sample_out_dir @ [name]) (filenames_of SIZES)"
    by blast
  from run have "\<forall>p \<in> set (printed sample_world sample_result). files sample_result p \<noteq> None"
    by blast
  then have "files sample_result (sample_out_dir @ [''icon-20@2x-ipad.png'']) \<noteq> None"
    unfolding p by (simp add: filenames_of_SIZES)
  with sample_run show ?thesis
    by (simp add: p filenames_of_SIZES)
qed

theorem main_writes_22_files_counterexample:
  "main sample_pil sample_out_dir sample_world = (Inr (), sample_result) \<and>
   distinct (printed sample_world sample_result) \<and>
   card (set (printed sample_world sample_result)) = 28 \<and>
   card (set (printed sample_world sample_result)) \<noteq> 22"
proof -
  from sample_run have
    "stdout sample_result =
       stdout sample_world @ map (\<lambda>n. sample_out_dir @ [n]) (filenames_of SIZES)"
    by (rule main_Inr_world)
  then have p: "printed sample_world sample_result =
      map (\<lambda>n. sample_out_dir @ [n]) (filenames_of SIZES)"
    by (rule printed_append)
  have d: "distinct (printed sample_world sample_result)"
    unfolding p by (rule distinct_out_paths)
  have "card (set (printed sample_world sample_result)) = 28"
    unfolding distinct_card [OF d] by (simp add: p length_filenames_of_SIZES)
  with d sample_run show ?thesis by simp
qed

text \<open>
  C4. During a run that completes, \<^verbatim>\<open>im.resize\<close> is called once for each of the 19
  pixel sizes of \<^verbatim>\<open>SIZES\<close>, at the first entry of that size; the later entries of 40,
  120 and 1024 call it no more, and the files of every entry are written.
\<close>

theorem resize_once_per_size:
  assumes "main lib out \<sigma> = (Inr (), \<sigma>')"
  shows "resized \<sigma> \<sigma>' =
           [20, 40, 60, 29, 58, 87, 80, 120, 180, 76, 152, 167, 1024, 16, 32, 64, 128, 256, 512] \<and>
         distinct (resized \<sigma> \<sigma>') \<and>
         set (resized \<sigma> \<sigma>') = fst ` set SIZES \<and>
         (\<forall>s \<in> fst ` set SIZES. count_list (resized \<sigma> \<sigma>') s = 1) \<and>
         printed \<sigma> \<sigma>' = map (\<lambda>name. out @ [name]) (filenames_of SIZES) \<and>
         (\<forall>(s, names) \<in> set SIZES. \<forall>name \<in> set names.
            out @ [name] \<in> set (printed \<sigma> \<sigma>') \<and> files \<sigma>' (out @ [name]) \<noteq> None)"
proof -
  from assms obtain im where
    out: "stdout \<sigma>' = stdout \<sigma> @ map (\<lambda>n. out @ [n]) (filenames_of SIZES)"
    and calls: "resize_calls \<sigma>' = resize_calls \<sigma> @ cache_misses {} (map fst SIZES)"
    and written: "\<forall>n. files \<sigma>' (out @ [n]) =
       (case last_size SIZES n of
          Some s \<Rightarrow> Some (png lib (resize lib (prepare im) (s, s)))
        | None \<Rightarrow> files \<sigma> (out @ [n]))"
    by (rule main_Inr_world)
  note p = printed_append [OF out]
  note r = resized_append [OF calls, unfolded cache_misses_SIZES]
  have 1: "distinct (resized \<sigma> \<sigma>')" unfolding r by simp
  have 2: "set (resized \<sigma> \<sigma>') = fst ` set SIZES"
    unfolding r by (simp add: SIZES_def) blast
  have 3: "\<forall>s \<in> fst ` set SIZES. count_list (resized \<sigma> \<sigma>') s = 1"
    unfolding r by (simp add: SIZES_def)
  have 4: "\<forall>(s, names) \<in> set SIZES. \<forall>name \<in> set names.
      out @ [name] \<in> set (printed \<sigma> \<sigma>') \<and> files \<sigma>' (out @ [name]) \<noteq> None"
  proof (intro ballI, clarify)
    fix s names name
    assume "(s, names) \<in> set SIZES" "name \<in> set names"
    then have "name \<in> set (filenames_of SIZES)" and "last_size SIZES name = Some s"
      by (rule in_filenames_of, rule last_size_SIZES)
    with written show "out @ [name] \<in> set (printed \<sigma> \<sigma>') \<and> files \<sigma>' (out @ [name]) \<noteq> None"
      unfolding p by simp
  qed
  from r 1 2 3 p 4 show ?thesis by blast
qed

theorem resize_once_per_size_witness:
  "main sample_pil sample_out_dir sample_world = (Inr (), sample_result) \<and>
   count_list (resized sample_world sample_result) 40 = 1 \<and>
   count_list (resized sample_world sample_result) 1024 = 1 \<and>
   length (resized sample_world sample_result) = 19 \<and>
   sample_out_dir @ [''icon-40.png''] \<in> set (printed sample_world sample_result)"
proof -
  note run = resize_once_per_size [OF sample_run]
  from run have r: "resized sample_world sample_result =
      [20, 40, 60, 29, 58, 87, 80, 120, 180, 76, 152, 167, 1024, 16, 32, 64, 128, 256, 512]"
    by blast
  from run have "printed sample_world sample_result =
      map (\<lambda>name. sample_out_dir @ [name]) (filenames_of SIZES)"
    by blast
  then have "sample_out_dir @ [''icon-40.png''] \<in> set (printed sample_world sample_result)"
    by (simp add: filenames_of_SIZES)
  with sample_run show ?thesis by (simp add: r)
qed

text \<open>
  C5. After a run that completes, the output directory holds, for every filename of
  every entry of \<^verbatim>\<open>SIZES\<close>, a file of that name, and the file is the PNG encoding of a
  raster of the size of the entry in both directions.
\<close>

theorem every_file_has_its_size:
  assumes "main lib out \<sigma> = (Inr (), \<sigma>')"
    and "(s, names) \<in> set SIZES" and "name \<in> set names"
  shows "is_dir \<sigma>' out \<and>
         files \<sigma>' (out @ [name]) \<noteq> None \<and>
         (\<exists>img. files \<sigma>' (out @ [name]) = Some (png lib img) \<and> width img = s \<and> height img = s)"
proof -
  from assms(1) obtain im where dir: "is_dir \<sigma>' out"
    and written: "\<forall>n. files \<sigma>' (out @ [n]) =
       (case last_size SIZES n of
          Some s \<Rightarrow> Some (png lib (resize lib (prepare im) (s, s)))
        | None \<Rightarrow> files \<sigma> (out @ [n]))"
    by (rule main_Inr_world)
  from written last_size_SIZES [OF assms(2,3)]
  have "files \<sigma>' (out @ [name]) = Some (png lib (resize lib (prepare im) (s, s)))"
    by simp
  with dir resize_size [of lib "prepare im" s s] show ?thesis by auto
qed

theorem every_file_has_its_size_witness:
  "main sample_pil sample_out_dir sample_world = (Inr (), sample_result) \<and>
   (1024, [''icon-mac-512@2x.png'']) \<in> set SIZES \<and>
   ''icon-mac-512@2x.png'' \<in> set [''icon-mac-512@2x.png''] \<and>
   is_dir sample_result sample_out_dir \<and>
   files sample_result (sample_out_dir @ [''icon-mac-512@2x.png'']) \<noteq> None"
proof -
  have entry: "(1024, [''icon-mac-512@2x.png'']) \<in> set SIZES"
    by (simp add: SIZES_def)
  have name: "''icon-mac-512@2x.png'' \<in> set [''icon-mac-512@2x.png'']"
    by simp
  from every_file_has_its_size [OF sample_run entry name] sample_run entry show ?thesis
    by simp
qed

text \<open>
  C6. After a run that completes, two output files whose filenames are listed with the
  same pixel size, in one entry of \<^verbatim>\<open>SIZES\<close> or in two, have the same bytes.
\<close>

theorem same_size_same_bytes:
  assumes "main lib out \<sigma> = (Inr (), \<sigma>')"
    and "(s, names1) \<in> set SIZES" and "name1 \<in> set names1"
    and "(s, names2) \<in> set SIZES" and "name2 \<in> set names2"
  shows "files \<sigma>' (out @ [name1]) = files \<sigma>' (out @ [name2]) \<and>
         files \<sigma>' (out @ [name1]) \<noteq> None"
proof -
  from assms(1) obtain im where
    written: "\<forall>n. files \<sigma>' (out @ [n]) =
       (case last_size SIZES n of
          Some s \<Rightarrow> Some (png lib (resize lib (prepare im) (s, s)))
        | None \<Rightarrow> files \<sigma> (out @ [n]))"
    by (rule main_Inr_world)
  from written last_size_SIZES [OF assms(2,3)] last_size_SIZES [OF assms(4,5)]
  show ?thesis by simp
qed

theorem same_size_same_bytes_witness:
  "main sample_pil sample_out_dir sample_world = (Inr (), sample_result) \<and>
   files sample_result (sample_out_dir @ [''icon-20@2x.png'']) =
     files sample_result (sample_out_dir @ [''icon-20@2x-ipad.png'']) \<and>
   files sample_result (sample_out_dir @ [''icon-20@2x.png'']) =
     files sample_result (sample_out_dir @ [''icon-40.png'']) \<and>
   files sample_result (sample_out_dir @ [''icon-20@2x.png'']) \<noteq> None"
proof -
  have a: "(40, [''icon-20@2x.png'', ''icon-20@2x-ipad.png'']) \<in> set SIZES"
    and b: "(40, [''icon-40.png'']) \<in> set SIZES"
    by (simp_all add: SIZES_def)
  have n1: "''icon-20@2x.png'' \<in> set [''icon-20@2x.png'', ''icon-20@2x-ipad.png'']"
    and n2: "''icon-20@2x-ipad.png'' \<in> set [''icon-20@2x.png'', ''icon-20@2x-ipad.png'']"
    and n3: "''icon-40.png'' \<in> set [''icon-40.png'']"
    by simp_all
  from same_size_same_bytes [OF sample_run a n1 a n2]
    same_size_same_bytes [OF sample_run a n1 b n3] sample_run
  show ?thesis by blast
qed

text \<open>
  C8. When the source is missing or is not a decodable image, the run ends with an
  exception, and no file has been created or changed, nothing has been printed and
  nothing has been resized. When the directory could be made, the exception is the one
  of opening the source.
\<close>

theorem unreadable_source_writes_nothing:
  assumes "source_unreadable lib \<sigma>"
  shows "(\<exists>e. fst (main lib out \<sigma>) = Inl e) \<and>
         files (snd (main lib out \<sigma>)) = files \<sigma> \<and>
         stdout (snd (main lib out \<sigma>)) = stdout \<sigma> \<and>
         resize_calls (snd (main lib out \<sigma>)) = resize_calls \<sigma> \<and>
         (fst (mkdir out \<sigma>) = Inr () \<longrightarrow>
            fst (main lib out \<sigma>) \<in>
              {Inl FileNotFoundError, Inl IsADirectoryError, Inl UnidentifiedImageError})"
proof -
  from main_unreadable [OF assms, of out] obtain e
    where run: "main lib out \<sigma> = (Inl e, snd (mkdir out \<sigma>))"
      and kind: "fst (mkdir out \<sigma>) = Inr () \<longrightarrow>
        e \<in> {FileNotFoundError, IsADirectoryError, UnidentifiedImageError}"
    by blast
  have "mkdir out \<sigma> = (fst (mkdir out \<sigma>), snd (mkdir out \<sigma>))" by simp
  note m = mkdir_fields [OF this]
  from run kind m show ?thesis by auto
qed

theorem unreadable_source_writes_nothing_witness:
  "source_unreadable sample_pil garbage_world \<and>
   fst (main sample_pil sample_out_dir garbage_world) \<noteq> Inr () \<and>
   files (snd (main sample_pil sample_out_dir garbage_world)) = files garbage_world \<and>
   stdout (snd (main sample_pil sample_out_dir garbage_world)) = []"
proof -
  have bad: "source_unreadable sample_pil garbage_world"
    by (simp add: source_unreadable_def garbage_world_def sample_pil_def sample_decode_def)
  from unreadable_source_writes_nothing [OF bad, of sample_out_dir] bad show ?thesis
    by (auto simp: garbage_world_def)
qed

text \<open>
  C9. \<^verbatim>\<open>main\<close> makes the output directory before it opens the source. In every run
  where the directory can be made, whatever happens afterwards, the world that the run
  leaves has the output directory and the directories above it, and every directory that
  existed before; and when the source is unreadable, the run ends with an exception in
  the very world that \<^verbatim>\<open>mkdir\<close> left.
\<close>

theorem output_directory_survives_failure:
  assumes "fst (mkdir out \<sigma>) = Inr ()"
  shows "is_dir (snd (main lib out \<sigma>)) out \<and>
         set (ancestors out) \<subseteq> dirs (snd (main lib out \<sigma>)) \<and>
         dirs (snd (main lib out \<sigma>)) = dirs \<sigma> \<union> set (ancestors out) \<and>
         (source_unreadable lib \<sigma> \<longrightarrow>
            (\<exists>e. main lib out \<sigma> = (Inl e, snd (mkdir out \<sigma>))))"
proof -
  note d = main_dirs [OF assms, of lib]
  have "is_dir (snd (main lib out \<sigma>)) out"
    by (cases "out = []") (simp_all add: is_dir_def d self_in_ancestors)
  moreover have "\<exists>e. main lib out \<sigma> = (Inl e, snd (mkdir out \<sigma>))"
    if "source_unreadable lib \<sigma>"
    using main_unreadable [OF that, of out] by blast
  ultimately show ?thesis using d by simp
qed

theorem output_directory_survives_failure_witness:
  "fst (mkdir sample_out_dir empty_world) = Inr () \<and>
   source_unreadable sample_pil empty_world \<and>
   fst (main sample_pil sample_out_dir empty_world) \<noteq> Inr () \<and>
   is_dir (snd (main sample_pil sample_out_dir empty_world)) sample_out_dir \<and>
   [''repo'', ''Shared''] \<in> dirs (snd (main sample_pil sample_out_dir empty_world))"
proof -
  have bad: "source_unreadable sample_pil empty_world"
    by (simp add: source_unreadable_def empty_world_def)
  have mk: "fst (mkdir sample_out_dir empty_world) = Inr ()"
    unfolding mkdir_def by (rule mkdir_each_succeeds) (simp add: empty_world_def)
  note run = output_directory_survives_failure [OF mk, of sample_pil]
  from run bad have "fst (main sample_pil sample_out_dir empty_world) \<noteq> Inr ()"
    by auto
  moreover from run have "is_dir (snd (main sample_pil sample_out_dir empty_world)) sample_out_dir"
    by blast
  moreover have "[''repo'', ''Shared''] \<in> set (ancestors sample_out_dir)"
    by (simp add: sample_out_dir_def)
  with run have "[''repo'', ''Shared''] \<in> dirs (snd (main sample_pil sample_out_dir empty_world))"
    by blast
  ultimately show ?thesis using bad mk by simp
qed

text \<open>
  C7. When a run completes, a second run from the world it left completes too and leaves
  every file with the bytes it had, and the same directories; and any two runs that
  complete on the same source bytes leave the same bytes under every filename.
\<close>

theorem main_idempotent:
  assumes "main lib out \<sigma> = (Inr (), \<sigma>1)"
  shows "(\<exists>\<sigma>2. main lib out \<sigma>1 = (Inr (), \<sigma>2) \<and> files \<sigma>2 = files \<sigma>1 \<and> dirs \<sigma>2 = dirs \<sigma>1) \<and>
         (\<forall>out_b \<sigma>b \<sigma>b'.
            main lib out_b \<sigma>b = (Inr (), \<sigma>b') \<and> files \<sigma>b SRC = files \<sigma> SRC \<longrightarrow>
            (\<forall>name \<in> set (filenames_of SIZES).
               files \<sigma>b' (out_b @ [name]) = files \<sigma>1 (out @ [name])))"
proof -
  from assms obtain content im where src: "files \<sigma> SRC = Some content"
    "decode_rgb lib content = Some im"
    by (rule main_Inr_world)
  have det: "files \<sigma>b' (out_b @ [name]) = files \<sigma>1 (out @ [name])"
    if "main lib out_b \<sigma>b = (Inr (), \<sigma>b')" "files \<sigma>b SRC = files \<sigma> SRC"
      "name \<in> set (filenames_of SIZES)" for out_b \<sigma>b \<sigma>b' name
  proof -
    from that(2) src have "files \<sigma>b SRC = Some content" by simp
    from main_Inr_file [OF that(1) this src(2) that(3)]
      main_Inr_file [OF assms src that(3)]
    show ?thesis by auto
  qed
  define \<sigma>2 where "\<sigma>2 = snd (main lib out \<sigma>1)"
  from main_again [OF assms] have again: "main lib out \<sigma>1 = (Inr (), \<sigma>2)"
    and same: "files \<sigma>1 SRC = files \<sigma> SRC" and anc: "set (ancestors out) \<subseteq> dirs \<sigma>1"
    by (simp_all add: \<sigma>2_def prod_eq_iff)
  from again obtain im2 :: "rgb image" where
    dirs2: "dirs \<sigma>2 = dirs \<sigma>1 \<union> set (ancestors out)"
    and others2: "\<forall>p. p \<notin> (\<lambda>n. out @ [n]) ` set (filenames_of SIZES) \<longrightarrow> files \<sigma>2 p = files \<sigma>1 p"
    by (rule main_Inr_world)
  have "files \<sigma>2 p = files \<sigma>1 p" for p
  proof (cases "p \<in> (\<lambda>n. out @ [n]) ` set (filenames_of SIZES)")
    case True
    then obtain n where "n \<in> set (filenames_of SIZES)" "p = out @ [n]" by blast
    with det [OF again same] show ?thesis by simp
  next
    case False
    with others2 show ?thesis by blast
  qed
  then have "files \<sigma>2 = files \<sigma>1" by (rule ext)
  moreover have "dirs \<sigma>2 = dirs \<sigma>1" using dirs2 anc by blast
  ultimately show ?thesis using again det by blast
qed

theorem main_idempotent_witness:
  "main sample_pil sample_out_dir sample_world = (Inr (), sample_result) \<and>
   fst (main sample_pil sample_out_dir sample_result) = Inr () \<and>
   files (snd (main sample_pil sample_out_dir sample_result)) = files sample_result \<and>
   dirs (snd (main sample_pil sample_out_dir sample_result)) = dirs sample_result \<and>
   fst (main sample_pil [''tmp''] sample_world) = Inr () \<and>
   files (snd (main sample_pil [''tmp''] sample_world)) ([''tmp''] @ [''icon-76.png'']) =
     files sample_result (sample_out_dir @ [''icon-76.png''])"
proof -
  note run = main_idempotent [OF sample_run]
  from run obtain \<sigma>2
    where "main sample_pil sample_out_dir sample_result = (Inr (), \<sigma>2)"
      "files \<sigma>2 = files sample_result" "dirs \<sigma>2 = dirs sample_result"
    by blast
  moreover have tmp: "fst (main sample_pil [''tmp''] sample_world) = Inr ()"
    by (rule sample_succeeds) (simp add: SRC_def)
  moreover have "files (snd (main sample_pil [''tmp''] sample_world)) ([''tmp''] @ [''icon-76.png'']) =
      files sample_result (sample_out_dir @ [''icon-76.png''])"
  proof -
    from tmp have "main sample_pil [''tmp''] sample_world =
        (Inr (), snd (main sample_pil [''tmp''] sample_world))"
      by (simp add: prod_eq_iff)
    moreover have "''icon-76.png'' \<in> set (filenames_of SIZES)"
      by (simp add: filenames_of_SIZES)
    ultimately show ?thesis using run by blast
  qed
  ultimately show ?thesis using sample_run by simp
qed

end
